theory Spec2Isabelle
  imports Main "HOL-Library.Word"
begin

section \<open>The outyet server: data\<close>

text \<open>
  The program is one Go file, \<open>outyet.go\<close>. A \<open>Server\<close> polls a URL with HTTP HEAD
  requests until one of them answers 200, then sets its field \<open>yes\<close> and stops polling;
  meanwhile it serves HTTP requests that read \<open>yes\<close>. Four process-wide \<open>expvar\<close>
  variables count what happened.

  \<^item> \<open>expvar.Int\<close> holds an \<open>int64\<close> and \<open>Add\<close> is an atomic 64-bit addition, so a
    counter is a \<open>64 word\<close>, read as a signed number by \<open>sint\<close>.
  \<^item> \<open>time.Duration\<close> is an \<open>int64\<close> of nanoseconds: again a \<open>64 word\<close>.
  \<^item> The network is outside the program. It is a parameter: \<open>net k u\<close> is what the
    \<open>k\<close>-th call of \<open>http.Head\<close> of the process returns when asked for URL \<open>u\<close>.
  \<^item> Calls that leave the program (\<open>http.Head\<close>, the hooks \<open>pollSleep\<close> and
    \<open>pollDone\<close>, \<open>tmpl.Execute\<close>) are recorded, in order, in a trace; \<open>log.Print\<close>
    appends to a list of logged messages.
\<close>

type_synonym int64 = "64 word"

text \<open>The pair \<open>(r, err)\<close> returned by \<open>http.Head\<close>: an error with its message
  (\<open>err.Error()\<close>), or a response with its \<open>StatusCode\<close>.\<close>

datatype head_result = Err string | Resp int

type_synonym network = "nat \<Rightarrow> string \<Rightarrow> head_result"

text \<open>The anonymous struct that \<open>ServeHTTP\<close> hands to the template.\<close>

record data =
  URL :: string
  Version :: string
  Yes :: bool

datatype event =
    HttpHead string
  | PollSleep int64
  | PollDone
  | TmplExecute data

text \<open>\<open>type Server struct\<close>. The mutex \<open>mu\<close> has no field here: what it protects, the
  write and the reads of \<open>yes\<close>, are atomic steps of the model.\<close>

record Server =
  version :: string
  url :: string
  period :: int64
  yes :: bool

text \<open>The package-level variables \<open>hitCount\<close>, \<open>pollCount\<close>, \<open>pollError\<close> and
  \<open>pollErrorCount\<close>, the log, the number of \<open>http.Head\<close> calls made so far and the
  trace of outside calls.\<close>

record process =
  hitCount :: int64
  pollCount :: int64
  pollError :: string
  pollErrorCount :: int64
  logged :: "string list"
  heads :: nat
  trace :: "event list"

text \<open>The variables as \<open>expvar.NewInt\<close> and \<open>expvar.NewString\<close> create them.\<close>

definition process_start :: process where
  "process_start =
     \<lparr>hitCount = 0, pollCount = 0, pollError = [], pollErrorCount = 0,
      logged = [], heads = 0, trace = []\<rparr>"

section \<open>The outyet server: operations\<close>

definition log_Print :: "string \<Rightarrow> process \<Rightarrow> process" where
  "log_Print m g = g\<lparr>logged := logged g @ [m]\<rparr>"

definition http_Head :: "network \<Rightarrow> string \<Rightarrow> process \<Rightarrow> head_result \<times> process" where
  "http_Head net u g =
     (net (heads g) u, g\<lparr>heads := Suc (heads g), trace := trace g @ [HttpHead u]\<rparr>)"

text \<open>
  \<^verbatim>\<open>
  func isTagged(url string) bool {
      pollCount.Add(1)
      r, err := http.Head(url)
      if err != nil {
          log.Print(err)
          pollError.Set(err.Error())
          pollErrorCount.Add(1)
          return false
      }
      return r.StatusCode == http.StatusOK
  }
  \<close>
\<close>

definition isTagged :: "network \<Rightarrow> string \<Rightarrow> process \<Rightarrow> bool \<times> process" where
  "isTagged net u g =
     (let g1 = g\<lparr>pollCount := pollCount g + 1\<rparr>;
          (r, g2) = http_Head net u g1
      in case r of
           Err e \<Rightarrow>
             (let g3 = log_Print e g2;
                  g4 = g3\<lparr>pollError := e\<rparr>;
                  g5 = g4\<lparr>pollErrorCount := pollErrorCount g4 + 1\<rparr>
              in (False, g5))
         | Resp code \<Rightarrow> (code = 200, g2))"

text \<open>The hooks \<open>pollSleep\<close> and \<open>pollDone\<close>. A call is recorded with its argument;
  neither touches a variable of the program (\<open>time.Sleep\<close> and \<open>func() {}\<close>).\<close>

definition pollSleep :: "int64 \<Rightarrow> process \<Rightarrow> process" where
  "pollSleep d g = g\<lparr>trace := trace g @ [PollSleep d]\<rparr>"

definition pollDone :: "process \<Rightarrow> process" where
  "pollDone g = g\<lparr>trace := trace g @ [PollDone]\<rparr>"

text \<open>
  \<^verbatim>\<open>
  func (s *Server) poll() {
      for !isTagged(s.url) {
          pollSleep(s.period)
      }
      s.mu.Lock()
      s.yes = true
      s.mu.Unlock()
      pollDone()
  }
  \<close>
  The loop may run forever: it is a partial function, \<open>None\<close> when it does not return.
\<close>

partial_function (option) poll_loop :: "network \<Rightarrow> Server \<Rightarrow> process \<Rightarrow> process option" where
  "poll_loop net s g =
     (case isTagged net (url s) g of
        (tagged, g') \<Rightarrow>
          if tagged then Some g' else poll_loop net s (pollSleep (period s) g'))"

definition poll :: "network \<Rightarrow> Server \<Rightarrow> process \<Rightarrow> (Server \<times> process) option" where
  "poll net s g =
     (case poll_loop net s g of
        None \<Rightarrow> None
      | Some g' \<Rightarrow> Some (s\<lparr>yes := True\<rparr>, pollDone g'))"

text \<open>
  \<open>ServeHTTP\<close>: count the hit, read the three fields under the read lock, execute the
  template, log its error if it has one. Whether \<open>tmpl.Execute\<close> fails is up to the
  client's connection: the error, if any, is the argument \<open>e\<close>.
\<close>

definition ServeHTTP :: "string option \<Rightarrow> Server \<Rightarrow> process \<Rightarrow> process" where
  "ServeHTTP e s g =
     (let g1 = g\<lparr>hitCount := hitCount g + 1\<rparr>;
          d = \<lparr>URL = url s, Version = version s, Yes = yes s\<rparr>;
          g2 = g1\<lparr>trace := trace g1 @ [TmplExecute d]\<rparr>
      in case e of None \<Rightarrow> g2 | Some m \<Rightarrow> log_Print m g2)"

subsection \<open>The goroutines, step by step\<close>

text \<open>
  \<open>NewServer\<close> starts \<open>poll\<close> in a goroutine of its own, and the HTTP server calls
  \<open>ServeHTTP\<close> from others. The position of the polling goroutine in \<open>poll\<close> is a
  program counter; one step of it is one call (\<open>isTagged\<close>, \<open>pollSleep\<close>, \<open>pollDone\<close>)
  or the locked assignment. A schedule is a list of actions, each a step of the poller or
  one request served.
\<close>

datatype pc = AtTest | AtSleep | AtLock | AtDone | Exited

type_synonym config = "pc \<times> Server \<times> process"

fun poll_step :: "network \<Rightarrow> config \<Rightarrow> config" where
  "poll_step net (AtTest, s, g) =
     (case isTagged net (url s) g of
        (tagged, g') \<Rightarrow> (if tagged then AtLock else AtSleep, s, g'))"
| "poll_step net (AtSleep, s, g) = (AtTest, s, pollSleep (period s) g)"
| "poll_step net (AtLock, s, g) = (AtDone, s\<lparr>yes := True\<rparr>, g)"
| "poll_step net (AtDone, s, g) = (Exited, s, pollDone g)"
| "poll_step net (Exited, s, g) = (Exited, s, g)"

datatype action = Poll | Serve "string option"

fun step :: "network \<Rightarrow> action \<Rightarrow> config \<Rightarrow> config" where
  "step net Poll c = poll_step net c"
| "step net (Serve e) (p, s, g) = (p, s, ServeHTTP e s g)"

definition run :: "network \<Rightarrow> action list \<Rightarrow> config \<Rightarrow> config" where
  "run net acts c = fold (step net) acts c"

text \<open>
  \<^verbatim>\<open>
  func NewServer(version, url string, period time.Duration) *Server {
      s := &Server{version: version, url: url, period: period}
      go s.poll()
      return s
  }
  \<close>
  The field \<open>yes\<close> has Go's zero value; the new goroutine stands before its first
  \<open>isTagged\<close>.
\<close>

definition NewServer :: "string \<Rightarrow> string \<Rightarrow> int64 \<Rightarrow> process \<Rightarrow> config" where
  "NewServer v u p g = (AtTest, \<lparr>version = v, url = u, period = p, yes = False\<rparr>, g)"

text \<open>Projections of a configuration, and the events a run added to the trace.\<close>

definition cpc :: "config \<Rightarrow> pc" where
  "cpc c = fst c"

definition srv :: "config \<Rightarrow> Server" where
  "srv c = fst (snd c)"

definition glob :: "config \<Rightarrow> process" where
  "glob c = snd (snd c)"

definition added :: "process \<Rightarrow> process \<Rightarrow> event list" where
  "added g g' = drop (length (trace g)) (trace g')"


section \<open>The command: \<open>main\<close>\<close>

text \<open>
  \<open>main\<close> parses the flags, walks the network interfaces, and builds the server.
  Its inputs are the values of the four flag variables after \<open>flag.Parse()\<close>, what
  \<open>net.Interfaces()\<close> and each \<open>i.Addrs()\<close> return (values and error), and the
  function \<open>IP.String\<close> of the standard library, a parameter. An \<open>IP\<close> is a byte
  slice; the \<open>nil\<close> slice of \<open>var ipcheck net.IP\<close> is the empty list.
\<close>

type_synonym IP = "8 word list"

text \<open>The dynamic types an \<open>net.Addr\<close> can have: \<open>*net.IPNet\<close> (address and mask),
  \<open>*net.IPAddr\<close> (address and zone), or any other.\<close>

datatype Addr = IPNet IP "8 word list" | IPAddr IP string | OtherAddr

text \<open>An interface, as \<open>main\<close> sees it: the result of its \<open>Addrs()\<close>.\<close>

type_synonym Interface = "Addr list \<times> string option"

record flags =
  httpAddr :: string
  pollPeriod :: int64
  version_flag :: string
  iphost :: string

definition baseChangeURL :: string where
  "baseChangeURL = ''https://go.googlesource.com/go/+/''"

text \<open>The inner loop, \<open>for _, addr := range addrs\<close>, with its type switch.\<close>

fun addrs_loop :: "IP \<Rightarrow> Addr list \<Rightarrow> IP" where
  "addrs_loop ipcheck [] = ipcheck"
| "addrs_loop ipcheck (IPNet ip m # addrs) = addrs_loop ip addrs"
| "addrs_loop ipcheck (IPAddr ip z # addrs) = addrs_loop ip addrs"
| "addrs_loop ipcheck (OtherAddr # addrs) = addrs_loop ipcheck addrs"

text \<open>The outer loop, \<open>for _, i := range ifaces\<close>: an error of \<open>i.Addrs()\<close> is logged
  and the addresses returned with it are walked all the same.\<close>

fun ifaces_loop :: "IP \<Rightarrow> Interface list \<Rightarrow> process \<Rightarrow> IP \<times> process" where
  "ifaces_loop ipcheck [] g = (ipcheck, g)"
| "ifaces_loop ipcheck ((addrs, err) # ifaces) g =
     ifaces_loop (addrs_loop ipcheck addrs) ifaces
       (case err of None \<Rightarrow> g | Some m \<Rightarrow> log_Print m g)"

text \<open>
  \<^verbatim>\<open>
  iphost = flag.String("Ip Host", ipcheck.String(), "IP Host")
  changeURL := fmt.Sprintf("%sgo%s", baseChangeURL, *iphost)
  http.Handle("/", NewServer(*iphost, changeURL, *pollPeriod))
  log.Fatal(http.ListenAndServe(*httpAddr, nil))
  \<close>
  \<open>flag.String\<close> defines a new flag, named \<open>Ip Host\<close>, and returns the address of a new
  variable that holds the default given; the command line has been parsed before, so
  nothing else is ever stored there. The variable \<open>iphost\<close> now points to it. \<open>main\<close>
  returns the listen address and the server it hands to \<open>http.Handle\<close>.
\<close>

definition main :: "(IP \<Rightarrow> string) \<Rightarrow> flags \<Rightarrow> Interface list \<times> string option \<Rightarrow> process
    \<Rightarrow> string \<times> config" where
  "main IP_String fl interfaces g =
     (let (ifaces, err) = interfaces;
          g1 = (case err of None \<Rightarrow> g | Some m \<Rightarrow> log_Print m g);
          (ipcheck, g2) = ifaces_loop [] ifaces g1;
          iphost' = IP_String ipcheck;
          changeURL = baseChangeURL @ ''go'' @ iphost'
      in (httpAddr fl, NewServer iphost' changeURL (pollPeriod fl) g2))"

text \<open>The addresses an enumeration finds, in the order it finds them: those of the
  \<open>*net.IPNet\<close> and \<open>*net.IPAddr\<close> values of every interface.\<close>

fun addr_ip :: "Addr \<Rightarrow> IP option" where
  "addr_ip (IPNet ip m) = Some ip"
| "addr_ip (IPAddr ip z) = Some ip"
| "addr_ip OtherAddr = None"

definition found_ips :: "Interface list \<Rightarrow> IP list" where
  "found_ips ifaces = concat (map (\<lambda>i. List.map_filter addr_ip (fst i)) ifaces)"

section \<open>Auxiliary definitions\<close>

text \<open>The events one action appends to the trace.\<close>

fun step_events :: "action \<Rightarrow> config \<Rightarrow> event list" where
  "step_events Poll (AtTest, s, g) = [HttpHead (url s)]"
| "step_events Poll (AtSleep, s, g) = [PollSleep (period s)]"
| "step_events Poll (AtLock, s, g) = []"
| "step_events Poll (AtDone, s, g) = [PollDone]"
| "step_events Poll (Exited, s, g) = []"
| "step_events (Serve e) (p, s, g) = [TmplExecute \<lparr>URL = url s, Version = version s, Yes = yes s\<rparr>]"

section \<open>Test doubles and sample inputs\<close>

text \<open>A network that always answers \<open>r\<close>, and one that answers \<open>r\<close> to the first \<open>n\<close>
  requests and 200 from then on.\<close>

definition net_always :: "head_result \<Rightarrow> network" where
  "net_always r k u = r"

definition net_after :: "nat \<Rightarrow> head_result \<Rightarrow> network" where
  "net_after n r k u = (if k < n then r else Resp 200)"

text \<open>A server as \<open>NewServer\<close> builds it, polling every five seconds.\<close>

definition srv5 :: Server where
  "srv5 = \<lparr>version = ''1.9.0'', url = ''https://go.googlesource.com/go/+/go1.9.0'',
            period = 5000000000, yes = False\<rparr>"

text \<open>Flags and interfaces of a sample invocation: \<open>-iphost 10.1.2.3\<close> on a host with a
  loopback interface and one more.\<close>

definition flags_sample :: flags where
  "flags_sample = \<lparr>httpAddr = '':8080'', pollPeriod = 5000000000, version_flag = ''1.9.0'',
                   iphost = ''10.1.2.3''\<rparr>"

definition interfaces_sample :: "Interface list \<times> string option" where
  "interfaces_sample =
     ([([IPNet [127, 0, 0, 1] [255, 0, 0, 0]], None),
       ([IPNet [192, 168, 1, 5] [255, 255, 255, 0], OtherAddr], None)], None)"

text \<open>Whether a result of \<open>http.Head\<close> is an error (\<open>err != nil\<close>).\<close>

fun is_Err :: "head_result \<Rightarrow> bool" where
  "is_Err (Err e) = True"
| "is_Err (Resp c) = False"

section \<open>One probe\<close>

lemma isTagged_Err:
  "net (heads g) u = Err e \<Longrightarrow>
   isTagged net u g =
     (False, g\<lparr>pollCount := pollCount g + 1, heads := Suc (heads g),
               trace := trace g @ [HttpHead u], logged := logged g @ [e],
               pollError := e, pollErrorCount := pollErrorCount g + 1\<rparr>)"
  by (simp add: isTagged_def http_Head_def log_Print_def)

lemma isTagged_Resp:
  "net (heads g) u = Resp c \<Longrightarrow>
   isTagged net u g =
     (c = 200, g\<lparr>pollCount := pollCount g + 1, heads := Suc (heads g),
                 trace := trace g @ [HttpHead u]\<rparr>)"
  by (simp add: isTagged_def http_Head_def)

lemma fst_isTagged: "fst (isTagged net u g) \<longleftrightarrow> net (heads g) u = Resp 200"
  by (cases "net (heads g) u") (simp_all add: isTagged_Err isTagged_Resp)

lemma heads_isTagged: "heads (snd (isTagged net u g)) = Suc (heads g)"
  by (cases "net (heads g) u") (simp_all add: isTagged_Err isTagged_Resp)

lemma trace_isTagged: "trace (snd (isTagged net u g)) = trace g @ [HttpHead u]"
  by (cases "net (heads g) u") (simp_all add: isTagged_Err isTagged_Resp)

section \<open>The polling loop that finds the tag\<close>

lemma poll_loop_tagged:
  "fst (isTagged net (url s) g) \<Longrightarrow> poll_loop net s g = Some (snd (isTagged net (url s) g))"
  by (subst poll_loop.simps) (simp add: case_prod_beta)

lemma poll_loop_not_tagged:
  "\<not> fst (isTagged net (url s) g) \<Longrightarrow>
   poll_loop net s g = poll_loop net s (pollSleep (period s) (snd (isTagged net (url s) g)))"
  by (subst poll_loop.simps) (simp add: case_prod_beta)

lemma heads_pollSleep [simp]: "heads (pollSleep d g) = heads g"
  by (simp add: pollSleep_def)

lemma trace_pollSleep [simp]: "trace (pollSleep d g) = trace g @ [PollSleep d]"
  by (simp add: pollSleep_def)

lemma run_Nil [simp]: "run net [] c = c"
  by (simp add: run_def)

lemma run_Cons [simp]: "run net (a # acts) c = run net acts (step net a c)"
  by (simp add: run_def)

lemma run_append: "run net (xs @ ys) c = run net ys (run net xs c)"
  by (simp add: run_def)

lemma poll_step_tagged:
  "fst (isTagged net (url s) g) \<Longrightarrow>
   poll_step net (AtTest, s, g) = (AtLock, s, snd (isTagged net (url s) g))"
  by (simp add: case_prod_beta)

lemma poll_step_not_tagged:
  "\<not> fst (isTagged net (url s) g) \<Longrightarrow>
   poll_step net (AtTest, s, g) = (AtSleep, s, snd (isTagged net (url s) g))"
  by (simp add: case_prod_beta)

text \<open>When the first \<open>N\<close> probes fail and the next one succeeds, the loop returns, and
  \<open>2 * N + 1\<close> steps of the goroutine bring it to the same state, before the lock.\<close>

lemma poll_loop_after:
  "(\<forall>k<N. net (heads g + k) (url s) \<noteq> Resp 200) \<Longrightarrow> net (heads g + N) (url s) = Resp 200 \<Longrightarrow>
   \<exists>g1. poll_loop net s g = Some g1 \<and> heads g1 = heads g + N + 1 \<and>
        trace g1 = trace g @ concat (replicate N [HttpHead (url s), PollSleep (period s)])
                     @ [HttpHead (url s)] \<and>
        run net (replicate (2 * N + 1) Poll) (AtTest, s, g) = (AtLock, s, g1)"
proof (induction N arbitrary: g)
  case 0
  then have "fst (isTagged net (url s) g)" by (simp add: fst_isTagged)
  then show ?case
    by (simp add: poll_loop_tagged poll_step_tagged heads_isTagged trace_isTagged
          del: poll_step.simps)
next
  case (Suc N)
  let ?g' = "pollSleep (period s) (snd (isTagged net (url s) g))"
  from Suc.prems(1) have nt: "\<not> fst (isTagged net (url s) g)"
    by (auto simp: fst_isTagged dest: spec[of _ 0])
  have "\<forall>k<N. net (heads ?g' + k) (url s) \<noteq> Resp 200"
  proof (intro allI impI)
    fix k assume "k < N"
    then have "Suc k < Suc N" by simp
    with Suc.prems(1) have "net (heads g + Suc k) (url s) \<noteq> Resp 200" by blast
    then show "net (heads ?g' + k) (url s) \<noteq> Resp 200" by (simp add: heads_isTagged)
  qed
  moreover have "net (heads ?g' + N) (url s) = Resp 200"
    using Suc.prems(2) by (simp add: heads_isTagged)
  ultimately obtain g1 where g1: "poll_loop net s ?g' = Some g1"
     "heads g1 = heads ?g' + N + 1"
     "trace g1 = trace ?g' @ concat (replicate N [HttpHead (url s), PollSleep (period s)])
                     @ [HttpHead (url s)]"
     "run net (replicate (2 * N + 1) Poll) (AtTest, s, ?g') = (AtLock, s, g1)"
    using Suc.IH[of ?g'] by blast
  have r: "replicate (2 * Suc N + 1) Poll = Poll # Poll # replicate (2 * N + 1) Poll"
    by simp
  have "run net (replicate (2 * Suc N + 1) Poll) (AtTest, s, g) = (AtLock, s, g1)"
    unfolding r using g1(4)
    by (simp add: poll_step_not_tagged[OF nt] del: poll_step.simps(1) replicate.simps)
  with g1(1-3) show ?case
    by (simp add: poll_loop_not_tagged[OF nt] heads_isTagged trace_isTagged)
qed

text \<open>
  Claim C2. Let the first \<open>N\<close> probes of \<open>poll\<close> fail and the next one answer 200. Then
  \<open>poll\<close> returns; it has called \<open>http.Head\<close> exactly \<open>N + 1\<close> times, with one
  \<open>pollSleep\<close> of the server's period after each failed probe and none after the last;
  the field \<open>yes\<close> is true; \<open>pollDone\<close> is called once, as the last call. Step by step:
  after \<open>2 * N + 2\<close> steps the goroutine stands before \<open>pollDone\<close> with \<open>yes\<close> already
  true, and its next step, the call of the hook, is its last.
\<close>

theorem poll_fails_then_confirms:
  assumes "\<forall>k<N. net (heads g + k) (url s) \<noteq> Resp 200"
    and "net (heads g + N) (url s) = Resp 200"
  shows "\<exists>g1. poll net s g = Some (s\<lparr>yes := True\<rparr>, pollDone g1) \<and>
           heads g1 = heads g + (N + 1) \<and>
           trace g1 = trace g @ concat (replicate N [HttpHead (url s), PollSleep (period s)])
                        @ [HttpHead (url s)] \<and>
           trace (pollDone g1) = trace g1 @ [PollDone] \<and>
           heads (pollDone g1) = heads g1 \<and>
           run net (replicate (2 * N + 1) Poll) (AtTest, s, g) = (AtLock, s, g1) \<and>
           run net (replicate (2 * N + 2) Poll) (AtTest, s, g) = (AtDone, s\<lparr>yes := True\<rparr>, g1) \<and>
           run net (replicate (2 * N + 3) Poll) (AtTest, s, g) =
             (Exited, s\<lparr>yes := True\<rparr>, pollDone g1)"
proof -
  from poll_loop_after[of N net g s] assms obtain g1 where
    a: "poll_loop net s g = Some g1" "heads g1 = heads g + N + 1"
       "trace g1 = trace g @ concat (replicate N [HttpHead (url s), PollSleep (period s)])
                     @ [HttpHead (url s)]"
    and b: "run net (replicate (2 * N + 1) Poll) (AtTest, s, g) = (AtLock, s, g1)"
    by blast
  have r2: "replicate (2 * N + 2) Poll = replicate (2 * N + 1) Poll @ [Poll]"
    by (simp add: replicate_append_same)
  have "2 * N + 3 = Suc (2 * N + 2)" by simp
  then have r3: "replicate (2 * N + 3) Poll = replicate (2 * N + 2) Poll @ [Poll]"
    by (simp only: replicate_Suc replicate_append_same)
  have c: "run net (replicate (2 * N + 2) Poll) (AtTest, s, g) = (AtDone, s\<lparr>yes := True\<rparr>, g1)"
    unfolding r2 run_append b by simp
  have d: "run net (replicate (2 * N + 3) Poll) (AtTest, s, g) =
             (Exited, s\<lparr>yes := True\<rparr>, pollDone g1)"
    unfolding r3 run_append c by simp
  have e: "poll net s g = Some (s\<lparr>yes := True\<rparr>, pollDone g1)"
    by (simp add: poll_def a(1))
  have f: "trace (pollDone g1) = trace g1 @ [PollDone]" "heads (pollDone g1) = heads g1"
    by (simp_all add: pollDone_def)
  from a(2,3) b c d e f show ?thesis by auto
qed

theorem poll_fails_then_confirms_witness:
  "\<exists>g'. poll (net_after 2 (Err ''connection refused'')) srv5 process_start =
           Some (srv5\<lparr>yes := True\<rparr>, g') \<and>
         heads g' = 3 \<and>
         trace g' = [HttpHead (url srv5), PollSleep 5000000000,
                     HttpHead (url srv5), PollSleep 5000000000,
                     HttpHead (url srv5), PollDone]"
  using poll_fails_then_confirms
          [of 2 "net_after 2 (Err ''connection refused'')" process_start srv5]
  by (auto simp add: net_after_def process_start_def srv5_def numeral_2_eq_2)


section \<open>Claims about one probe\<close>

text \<open>
  Claim C3. One call of \<open>isTagged\<close> returns true exactly when the answer to its request
  is a response with status 200. When the request fails with an error, the call returns
  false, stores the error's message in \<open>pollError\<close>, logs it, and adds one to
  \<open>pollErrorCount\<close>. In every case the call makes exactly one \<open>http.Head\<close> request:
  there is no retry inside it.
\<close>

theorem isTagged_single_attempt:
  "(fst (isTagged net u g) \<longleftrightarrow> net (heads g) u = Resp 200) \<and>
   (\<forall>e. net (heads g) u = Err e \<longrightarrow>
      isTagged net u g =
        (False, g\<lparr>pollCount := pollCount g + 1, heads := Suc (heads g),
                  trace := trace g @ [HttpHead u], logged := logged g @ [e],
                  pollError := e, pollErrorCount := pollErrorCount g + 1\<rparr>)) \<and>
   heads (snd (isTagged net u g)) = Suc (heads g) \<and>
   trace (snd (isTagged net u g)) = trace g @ [HttpHead u]"
  by (simp add: fst_isTagged heads_isTagged trace_isTagged isTagged_Err)

theorem isTagged_single_attempt_witness:
  "fst (isTagged (net_always (Resp 200)) ''u'' process_start) \<and>
   \<not> fst (isTagged (net_always (Resp 404)) ''u'' process_start) \<and>
   isTagged (net_always (Err ''connection refused'')) ''u'' process_start =
     (False, \<lparr>hitCount = 0, pollCount = 1, pollError = ''connection refused'',
              pollErrorCount = 1, logged = [''connection refused''], heads = 1,
              trace = [HttpHead ''u'']\<rparr>)"
  using isTagged_single_attempt [of "net_always (Resp 200)" "''u''" process_start]
    isTagged_single_attempt [of "net_always (Resp 404)" "''u''" process_start]
    isTagged_single_attempt [of "net_always (Err ''connection refused'')" "''u''" process_start]
  by (simp add: net_always_def process_start_def)

text \<open>
  Claim C10. A probe answered with status 200 returns true, adds one to \<open>pollCount\<close>,
  and leaves \<open>pollError\<close>, \<open>pollErrorCount\<close>, \<open>hitCount\<close> and the log as they were: the
  message of an earlier failure is still there after a success.
\<close>

theorem isTagged_ok_frame:
  "net (heads g) u = Resp 200 \<Longrightarrow>
   isTagged net u g =
     (True, g\<lparr>pollCount := pollCount g + 1, heads := Suc (heads g),
              trace := trace g @ [HttpHead u]\<rparr>) \<and>
   pollError (snd (isTagged net u g)) = pollError g \<and>
   pollErrorCount (snd (isTagged net u g)) = pollErrorCount g \<and>
   pollCount (snd (isTagged net u g)) = pollCount g + 1 \<and>
   hitCount (snd (isTagged net u g)) = hitCount g \<and>
   logged (snd (isTagged net u g)) = logged g"
  by (simp add: isTagged_Resp)

theorem isTagged_ok_frame_witness:
  "pollError (snd (isTagged (net_after 1 (Err ''no such host'')) ''u'' process_start)) = ''no such host'' \<and>
   pollErrorCount (snd (isTagged (net_after 1 (Err ''no such host'')) ''u'' process_start)) = 1 \<and>
   fst (isTagged (net_after 1 (Err ''no such host'')) ''u''
          (snd (isTagged (net_after 1 (Err ''no such host'')) ''u'' process_start))) \<and>
   pollError (snd (isTagged (net_after 1 (Err ''no such host'')) ''u''
          (snd (isTagged (net_after 1 (Err ''no such host'')) ''u'' process_start)))) = ''no such host'' \<and>
   pollErrorCount (snd (isTagged (net_after 1 (Err ''no such host'')) ''u''
          (snd (isTagged (net_after 1 (Err ''no such host'')) ''u'' process_start)))) = 1 \<and>
   pollCount (snd (isTagged (net_after 1 (Err ''no such host'')) ''u''
          (snd (isTagged (net_after 1 (Err ''no such host'')) ''u'' process_start)))) = 2"
proof -
  let ?net = "net_after 1 (Err ''no such host'')"
  have e: "?net (heads process_start) ''u'' = Err ''no such host''"
    by (simp add: net_after_def process_start_def)
  have g1: "isTagged ?net ''u'' process_start =
      (False, \<lparr>hitCount = 0, pollCount = 1, pollError = ''no such host'',
              pollErrorCount = 1, logged = [''no such host''], heads = 1,
              trace = [HttpHead ''u'']\<rparr>)"
    using isTagged_Err[of ?net process_start "''u''", OF e] by (simp add: process_start_def)
  have ok: "?net (heads (snd (isTagged ?net ''u'' process_start))) ''u'' = Resp 200"
    by (simp add: net_after_def heads_isTagged)
  show ?thesis
    using isTagged_ok_frame [of ?net "snd (isTagged ?net ''u'' process_start)" "''u''", OF ok]
    unfolding g1 by simp
qed

text \<open>
  Claim C6 says that a response with a status other than 200 is recorded in the counters
  and diagnostics as a transport error is. It is not: after a 404 the error counter, the
  error message and the log are untouched, after a failed request they all change.
\<close>

theorem status_not_ok_counterexample:
  "pollErrorCount (snd (isTagged (net_always (Resp 404)) ''u'' process_start)) = 0 \<and>
   pollError (snd (isTagged (net_always (Resp 404)) ''u'' process_start)) = [] \<and>
   logged (snd (isTagged (net_always (Resp 404)) ''u'' process_start)) = [] \<and>
   pollErrorCount (snd (isTagged (net_always (Err ''timeout'')) ''u'' process_start)) = 1 \<and>
   pollError (snd (isTagged (net_always (Err ''timeout'')) ''u'' process_start)) = ''timeout'' \<and>
   logged (snd (isTagged (net_always (Err ''timeout'')) ''u'' process_start)) = [''timeout'']"
  by (simp add: isTagged_def http_Head_def log_Print_def net_always_def process_start_def)

text \<open>
  Claim C6, amended. A probe whose request is answered with a status other than 200
  returns false and the loop goes on to the next round (it sleeps for the period and probes
  again), as after a transport failure; but nothing is recorded: \<open>pollError\<close>,
  \<open>pollErrorCount\<close> and the log stay as they were, and only \<open>pollCount\<close> is incremented.
\<close>

theorem status_not_ok_unrecorded:
  "net (heads g) (url s) = Resp c \<Longrightarrow> c \<noteq> 200 \<Longrightarrow>
   isTagged net (url s) g =
     (False, g\<lparr>pollCount := pollCount g + 1, heads := Suc (heads g),
               trace := trace g @ [HttpHead (url s)]\<rparr>) \<and>
   pollError (snd (isTagged net (url s) g)) = pollError g \<and>
   pollErrorCount (snd (isTagged net (url s) g)) = pollErrorCount g \<and>
   logged (snd (isTagged net (url s) g)) = logged g \<and>
   poll_loop net s g =
     poll_loop net s (pollSleep (period s) (snd (isTagged net (url s) g))) \<and>
   run net [Poll, Poll] (AtTest, s, g) =
     (AtTest, s, pollSleep (period s) (snd (isTagged net (url s) g)))"
proof -
  assume r: "net (heads g) (url s) = Resp c" and c: "c \<noteq> 200"
  then have nt: "\<not> fst (isTagged net (url s) g)"
    by (simp add: fst_isTagged)
  show ?thesis
    using c by (simp add: isTagged_Resp[of net g "url s", OF r] poll_loop_not_tagged[OF nt])
qed

theorem status_not_ok_unrecorded_witness:
  "isTagged (net_always (Resp 404)) (url srv5) process_start =
     (False, \<lparr>hitCount = 0, pollCount = 1, pollError = [], pollErrorCount = 0,
              logged = [], heads = 1, trace = [HttpHead (url srv5)]\<rparr>) \<and>
   run (net_always (Resp 404)) [Poll, Poll] (AtTest, srv5, process_start) =
     (AtTest, srv5, \<lparr>hitCount = 0, pollCount = 1, pollError = [], pollErrorCount = 0,
              logged = [], heads = 1, trace = [HttpHead (url srv5), PollSleep (period srv5)]\<rparr>)"
  using status_not_ok_unrecorded [of "net_always (Resp 404)" process_start srv5 404]
  by (simp add: net_always_def process_start_def pollSleep_def)


section \<open>What one step does\<close>

text \<open>The effect of one action on each component of a configuration, by cases on the
  action and on the program counter.\<close>

lemma glob_simp [simp]: "glob (p, s, g) = g"
  by (simp add: glob_def)

lemma srv_simp [simp]: "srv (p, s, g) = s"
  by (simp add: srv_def)

lemma cpc_simp [simp]: "cpc (p, s, g) = p"
  by (simp add: cpc_def)

lemma poll_step_AtTest:
  "poll_step net (AtTest, s, g) =
     (if net (heads g) (url s) = Resp 200 then AtLock else AtSleep, s,
      snd (isTagged net (url s) g))"
  using fst_isTagged[of net "url s" g] by (simp add: case_prod_beta)

lemma isTagged_counters:
  "pollCount (snd (isTagged net u g)) = pollCount g + 1"
  "pollErrorCount (snd (isTagged net u g)) =
     pollErrorCount g + (if is_Err (net (heads g) u) then 1 else 0)"
  "hitCount (snd (isTagged net u g)) = hitCount g"
  by (cases "net (heads g) u"; simp add: isTagged_Err isTagged_Resp)+

lemma ServeHTTP_fields:
  "hitCount (ServeHTTP e s g) = hitCount g + 1"
  "pollCount (ServeHTTP e s g) = pollCount g"
  "pollErrorCount (ServeHTTP e s g) = pollErrorCount g"
  "pollError (ServeHTTP e s g) = pollError g"
  "heads (ServeHTTP e s g) = heads g"
  "trace (ServeHTTP e s g) =
     trace g @ [TmplExecute \<lparr>URL = url s, Version = version s, Yes = yes s\<rparr>]"
  by (cases e; simp add: ServeHTTP_def log_Print_def)+

lemma pollDone_fields [simp]:
  "hitCount (pollDone g) = hitCount g"
  "pollCount (pollDone g) = pollCount g"
  "pollErrorCount (pollDone g) = pollErrorCount g"
  "pollError (pollDone g) = pollError g"
  "heads (pollDone g) = heads g"
  "trace (pollDone g) = trace g @ [PollDone]"
  by (simp_all add: pollDone_def)

lemma pollSleep_fields [simp]:
  "hitCount (pollSleep d g) = hitCount g"
  "pollCount (pollSleep d g) = pollCount g"
  "pollErrorCount (pollSleep d g) = pollErrorCount g"
  "pollError (pollSleep d g) = pollError g"
  by (simp_all add: pollSleep_def)

lemma step_srv:
  "version (srv (step net a c)) = version (srv c)"
  "url (srv (step net a c)) = url (srv c)"
  "period (srv (step net a c)) = period (srv c)"
  "yes (srv (step net a c)) = (yes (srv c) \<or> a = Poll \<and> cpc c = AtLock)"
proof -
  obtain p s g where c: "c = (p, s, g)" by (cases c)
  show "version (srv (step net a c)) = version (srv c)"
    unfolding c by (cases a; cases p; simp add: poll_step_AtTest del: poll_step.simps(1))
  show "url (srv (step net a c)) = url (srv c)"
    unfolding c by (cases a; cases p; simp add: poll_step_AtTest del: poll_step.simps(1))
  show "period (srv (step net a c)) = period (srv c)"
    unfolding c by (cases a; cases p; simp add: poll_step_AtTest del: poll_step.simps(1))
  show "yes (srv (step net a c)) = (yes (srv c) \<or> a = Poll \<and> cpc c = AtLock)"
    unfolding c by (cases a; cases p; simp add: poll_step_AtTest del: poll_step.simps(1))
qed

lemma step_cpc:
  "cpc (step net a c) =
     (if a = Poll then
        (case cpc c of
           AtTest \<Rightarrow> if net (heads (glob c)) (url (srv c)) = Resp 200 then AtLock else AtSleep
         | AtSleep \<Rightarrow> AtTest | AtLock \<Rightarrow> AtDone | AtDone \<Rightarrow> Exited | Exited \<Rightarrow> Exited)
      else cpc c)"
proof -
  obtain p s g where c: "c = (p, s, g)" by (cases c)
  show ?thesis
    unfolding c by (cases a; cases p; simp add: poll_step_AtTest del: poll_step.simps(1))
qed

lemma step_heads:
  "heads (glob (step net a c)) =
     (if a = Poll \<and> cpc c = AtTest then Suc (heads (glob c)) else heads (glob c))"
proof -
  obtain p s g where c: "c = (p, s, g)" by (cases c)
  show ?thesis
    unfolding c
    by (cases a; cases p;
        simp add: poll_step_AtTest heads_isTagged ServeHTTP_fields del: poll_step.simps(1))
qed

lemma step_trace: "trace (glob (step net a c)) = trace (glob c) @ step_events a c"
proof -
  obtain p s g where c: "c = (p, s, g)" by (cases c)
  show ?thesis
    unfolding c
    by (cases a; cases p;
        simp add: poll_step_AtTest trace_isTagged ServeHTTP_fields del: poll_step.simps(1))
qed

lemma step_counters:
  "pollCount (glob (step net a c)) =
     pollCount (glob c) + (if a = Poll \<and> cpc c = AtTest then 1 else 0)"
  "pollErrorCount (glob (step net a c)) =
     pollErrorCount (glob c) +
       (if a = Poll \<and> cpc c = AtTest \<and> is_Err (net (heads (glob c)) (url (srv c))) then 1 else 0)"
  "hitCount (glob (step net a c)) = hitCount (glob c) + (if a = Poll then 0 else 1)"
proof -
  obtain p s g where c: "c = (p, s, g)" by (cases c)
  show "pollCount (glob (step net a c)) =
     pollCount (glob c) + (if a = Poll \<and> cpc c = AtTest then 1 else 0)"
    unfolding c
    by (cases a; cases p;
        simp add: poll_step_AtTest isTagged_counters ServeHTTP_fields del: poll_step.simps(1))
  show "pollErrorCount (glob (step net a c)) =
     pollErrorCount (glob c) +
       (if a = Poll \<and> cpc c = AtTest \<and> is_Err (net (heads (glob c)) (url (srv c))) then 1 else 0)"
    unfolding c
    by (cases a; cases p;
        simp add: poll_step_AtTest isTagged_counters ServeHTTP_fields del: poll_step.simps(1))
  show "hitCount (glob (step net a c)) = hitCount (glob c) + (if a = Poll then 0 else 1)"
    unfolding c
    by (cases a; cases p;
        simp add: poll_step_AtTest isTagged_counters ServeHTTP_fields del: poll_step.simps(1))
qed

lemma run_invariant:
  "P c \<Longrightarrow> (\<And>a c. P c \<Longrightarrow> P (step net a c)) \<Longrightarrow> P (run net acts c)"
  by (induction acts arbitrary: c) simp_all


lemma added_append: "trace g' = trace g @ ext \<Longrightarrow> added g g' = ext"
  by (simp add: added_def)

lemma step_events_TmplExecute:
  "TmplExecute d \<in> set (step_events a c) \<Longrightarrow>
   a \<noteq> Poll \<and> d = \<lparr>URL = url (srv c), Version = version (srv c), Yes = yes (srv c)\<rparr>"
proof -
  obtain p s g where c: "c = (p, s, g)" by (cases c)
  show "TmplExecute d \<in> set (step_events a c) \<Longrightarrow>
   a \<noteq> Poll \<and> d = \<lparr>URL = url (srv c), Version = version (srv c), Yes = yes (srv c)\<rparr>"
    unfolding c by (cases a; cases p; simp)
qed

lemma step_events_PollSleep:
  "PollSleep d \<in> set (step_events a c) \<Longrightarrow> a = Poll \<and> cpc c = AtSleep \<and> d = period (srv c)"
proof -
  obtain p s g where c: "c = (p, s, g)" by (cases c)
  show "PollSleep d \<in> set (step_events a c) \<Longrightarrow> a = Poll \<and> cpc c = AtSleep \<and> d = period (srv c)"
    unfolding c by (cases a; cases p; simp)
qed

section \<open>Invariants of the schedules\<close>

text \<open>Once \<open>yes\<close> is true it stays true, and every request served from then on reads true.\<close>

lemma yes_stays:
  assumes "yes (srv c)"
  shows "yes (srv (run net acts c)) \<and>
         (\<exists>ext. trace (glob (run net acts c)) = trace (glob c) @ ext \<and>
                (\<forall>d. TmplExecute d \<in> set ext \<longrightarrow> Yes d))"
proof (rule run_invariant[where P = "\<lambda>c'. yes (srv c') \<and>
         (\<exists>ext. trace (glob c') = trace (glob c) @ ext \<and>
                (\<forall>d. TmplExecute d \<in> set ext \<longrightarrow> Yes d))"])
  show "yes (srv c) \<and> (\<exists>ext. trace (glob c) = trace (glob c) @ ext \<and>
                (\<forall>d. TmplExecute d \<in> set ext \<longrightarrow> Yes d))"
    using assms by simp
next
  fix a c'
  assume "yes (srv c') \<and> (\<exists>ext. trace (glob c') = trace (glob c) @ ext \<and>
                (\<forall>d. TmplExecute d \<in> set ext \<longrightarrow> Yes d))"
  then obtain ext where y: "yes (srv c')" and t: "trace (glob c') = trace (glob c) @ ext"
    and r: "\<forall>d. TmplExecute d \<in> set ext \<longrightarrow> Yes d"
    by blast
  have "yes (srv (step net a c'))"
    using y by (simp add: step_srv)
  moreover have "trace (glob (step net a c')) = trace (glob c) @ (ext @ step_events a c')"
    by (simp add: step_trace t)
  moreover have "\<forall>d. TmplExecute d \<in> set (ext @ step_events a c') \<longrightarrow> Yes d"
    using r y by (auto dest: step_events_TmplExecute)
  ultimately show "yes (srv (step net a c')) \<and>
         (\<exists>ext. trace (glob (step net a c')) = trace (glob c) @ ext \<and>
                (\<forall>d. TmplExecute d \<in> set ext \<longrightarrow> Yes d))"
    by blast
qed

text \<open>
  Claim C1. From any state in which \<open>yes\<close> is true, whatever the goroutines do next, in
  any order (steps of the polling loop, requests served), \<open>yes\<close> is true afterwards,
  and every request served on the way has read true.
\<close>

theorem yes_is_monotonic:
  "yes (srv c) \<Longrightarrow>
   yes (srv (run net acts c)) \<and>
   (\<forall>d. TmplExecute d \<in> set (added (glob c) (glob (run net acts c))) \<longrightarrow> Yes d)"
  using yes_stays[of c net acts] by (auto simp: added_append)

theorem yes_is_monotonic_witness:
  "yes (srv (run (net_always (Resp 200)) [Poll, Poll] (NewServer ''1.9.0'' ''u'' 5 process_start))) \<and>
   yes (srv (run (net_always (Resp 200)) [Serve None, Poll, Serve (Some ''broken pipe''), Poll, Poll]
              (run (net_always (Resp 200)) [Poll, Poll] (NewServer ''1.9.0'' ''u'' 5 process_start))))"
proof -
  have h: "yes (srv (run (net_always (Resp 200)) [Poll, Poll] (NewServer ''1.9.0'' ''u'' 5 process_start)))"
    by (simp add: NewServer_def isTagged_def http_Head_def net_always_def)
  from yes_is_monotonic [OF h] h show ?thesis by blast
qed

text \<open>What holds in every state a new server can reach.\<close>

lemma poller_invariant:
  "url (srv (run net acts (NewServer v u p g))) = u \<and>
   version (srv (run net acts (NewServer v u p g))) = v \<and>
   period (srv (run net acts (NewServer v u p g))) = p \<and>
   heads g \<le> heads (glob (run net acts (NewServer v u p g))) \<and>
   ((\<forall>k. heads g \<le> k \<and> k < heads (glob (run net acts (NewServer v u p g))) \<longrightarrow> net k u \<noteq> Resp 200)
      \<longrightarrow> cpc (run net acts (NewServer v u p g)) = AtTest \<or> cpc (run net acts (NewServer v u p g)) = AtSleep) \<and>
   (\<exists>ext. trace (glob (run net acts (NewServer v u p g))) = trace g @ ext \<and>
      (\<forall>d. PollSleep d \<in> set ext \<longrightarrow> d = p) \<and>
      (\<forall>d. TmplExecute d \<in> set ext \<longrightarrow> URL d = u \<and> Version d = v) \<and>
      (cpc (run net acts (NewServer v u p g)) \<in> {AtTest, AtSleep, AtLock} \<longrightarrow>
         \<not> yes (srv (run net acts (NewServer v u p g))) \<and> (\<forall>d. TmplExecute d \<in> set ext \<longrightarrow> \<not> Yes d)))"
  (is "?P (run net acts (NewServer v u p g))")
proof (rule run_invariant[where P = ?P])
  show "?P (NewServer v u p g)"
    by (simp add: NewServer_def)
next
  fix a c
  assume inv: "?P c"
  let ?c' = "step net a c"
  from inv obtain ext where
    f: "url (srv c) = u" "version (srv c) = v" "period (srv c) = p" "heads g \<le> heads (glob c)"
    and ns: "(\<forall>k. heads g \<le> k \<and> k < heads (glob c) \<longrightarrow> net k u \<noteq> Resp 200)
      \<longrightarrow> cpc c = AtTest \<or> cpc c = AtSleep"
    and t: "trace (glob c) = trace g @ ext"
    and sl: "\<forall>d. PollSleep d \<in> set ext \<longrightarrow> d = p"
    and uv: "\<forall>d. TmplExecute d \<in> set ext \<longrightarrow> URL d = u \<and> Version d = v"
    and rd: "cpc c \<in> {AtTest, AtSleep, AtLock} \<longrightarrow>
         \<not> yes (srv c) \<and> (\<forall>d. TmplExecute d \<in> set ext \<longrightarrow> \<not> Yes d)"
    by blast
  have 1: "url (srv ?c') = u" "version (srv ?c') = v" "period (srv ?c') = p"
    using f by (simp_all add: step_srv)
  have 2: "heads g \<le> heads (glob ?c')"
    using f(4) by (simp add: step_heads)
  have 3: "(\<forall>k. heads g \<le> k \<and> k < heads (glob ?c') \<longrightarrow> net k u \<noteq> Resp 200)
      \<longrightarrow> cpc ?c' = AtTest \<or> cpc ?c' = AtSleep"
  proof
    assume nos: "\<forall>k. heads g \<le> k \<and> k < heads (glob ?c') \<longrightarrow> net k u \<noteq> Resp 200"
    have le: "heads (glob c) \<le> heads (glob ?c')" by (simp add: step_heads)
    with nos have "\<forall>k. heads g \<le> k \<and> k < heads (glob c) \<longrightarrow> net k u \<noteq> Resp 200"
      by auto
    with ns have pc: "cpc c = AtTest \<or> cpc c = AtSleep" by blast
    show "cpc ?c' = AtTest \<or> cpc ?c' = AtSleep"
    proof (cases "a = Poll \<and> cpc c = AtTest")
      case True
      then have "heads (glob ?c') = Suc (heads (glob c))"
        using step_heads[of net a c] by simp
      with nos f(4) have "net (heads (glob c)) u \<noteq> Resp 200" by auto
      with True f(1) show ?thesis using step_cpc[of net a c] by simp
    next
      case False
      with pc show ?thesis using step_cpc[of net a c] by auto
    qed
  qed
  have 4: "trace (glob ?c') = trace g @ (ext @ step_events a c)"
    by (simp add: step_trace t)
  have 5: "\<forall>d. PollSleep d \<in> set (ext @ step_events a c) \<longrightarrow> d = p"
    using sl f(3) by (auto dest: step_events_PollSleep)
  have 6: "\<forall>d. TmplExecute d \<in> set (ext @ step_events a c) \<longrightarrow> URL d = u \<and> Version d = v"
    using uv f(1,2) by (auto dest: step_events_TmplExecute)
  have 7: "cpc ?c' \<in> {AtTest, AtSleep, AtLock} \<longrightarrow>
         \<not> yes (srv ?c') \<and> (\<forall>d. TmplExecute d \<in> set (ext @ step_events a c) \<longrightarrow> \<not> Yes d)"
  proof
    assume pc': "cpc ?c' \<in> {AtTest, AtSleep, AtLock}"
    then have pc: "cpc c \<in> {AtTest, AtSleep, AtLock}" and na: "\<not> (a = Poll \<and> cpc c = AtLock)"
      using step_cpc[of net a c] by (auto split: if_splits pc.splits)
    with rd have ny: "\<not> yes (srv c)" and old: "\<forall>d. TmplExecute d \<in> set ext \<longrightarrow> \<not> Yes d"
      by blast+
    have "\<not> yes (srv ?c')" using ny na step_srv(4)[of net a c] by simp
    moreover have "\<forall>d. TmplExecute d \<in> set (ext @ step_events a c) \<longrightarrow> \<not> Yes d"
      using old ny by (auto dest: step_events_TmplExecute)
    ultimately show "\<not> yes (srv ?c') \<and> (\<forall>d. TmplExecute d \<in> set (ext @ step_events a c) \<longrightarrow> \<not> Yes d)"
      by blast
  qed
  from 1 2 3 4 5 6 7 show "?P ?c'" by blast
qed

text \<open>The loop returns only after a request answered with 200.\<close>

lemma poll_loop_Some_success:
  assumes "poll_loop net s g = Some g'"
  shows "\<exists>k\<ge>heads g. net k (url s) = Resp 200"
proof (rule poll_loop.raw_induct
         [where P = "\<lambda>net s g g'. \<exists>k\<ge>heads g. net k (url s) = Resp 200", OF _ assms])
  fix f :: "network \<Rightarrow> Server \<Rightarrow> process \<Rightarrow> process option" and net s g y
  assume IH: "\<And>net s g y. f net s g = Some y \<Longrightarrow> \<exists>k\<ge>heads g. net k (url s) = Resp 200"
    and eq: "(case isTagged net (url s) g of
               (tagged, g') \<Rightarrow>
                 if tagged then Some g' else f net s (pollSleep (period s) g')) = Some y"
  show "\<exists>k\<ge>heads g. net k (url s) = Resp 200"
  proof (cases "fst (isTagged net (url s) g)")
    case True
    then have "net (heads g) (url s) = Resp 200" by (simp add: fst_isTagged)
    then show ?thesis by blast
  next
    case False
    with eq have "f net s (pollSleep (period s) (snd (isTagged net (url s) g))) = Some y"
      by (simp add: case_prod_beta)
    then have "\<exists>k\<ge>heads (pollSleep (period s) (snd (isTagged net (url s) g))). net k (url s) = Resp 200"
      by (rule IH)
    then obtain k where "Suc (heads g) \<le> k" "net k (url s) = Resp 200"
      by (auto simp: heads_isTagged)
    then have "heads g \<le> k \<and> net k (url s) = Resp 200" by simp
    then show ?thesis by blast
  qed
qed

lemma poll_never_returns:
  "\<forall>k\<ge>heads g. net k (url s) \<noteq> Resp 200 \<Longrightarrow> poll net s g = None"
proof -
  assume a: "\<forall>k\<ge>heads g. net k (url s) \<noteq> Resp 200"
  have "poll_loop net s g = None"
  proof (cases "poll_loop net s g")
    case None
    then show ?thesis .
  next
    case (Some g')
    from poll_loop_Some_success[OF this] obtain k where "heads g \<le> k" "net k (url s) = Resp 200"
      by blast
    with a have False by simp
    then show ?thesis ..
  qed
  then show ?thesis by (simp add: poll_def)
qed

text \<open>The two readings of \<open>poll\<close> agree: when the function returns, the goroutine,
  left to run alone, reaches its exit with the same server and the same variables.\<close>

lemma poll_agrees_with_steps:
  assumes "poll net s g = Some (s', g')"
  shows "\<exists>n. run net (replicate n Poll) (AtTest, s, g) = (Exited, s', g')"
proof -
  from assms obtain g1 where l: "poll_loop net s g = Some g1"
    and s': "s' = s\<lparr>yes := True\<rparr>" and g': "g' = pollDone g1"
    by (auto simp: poll_def split: option.splits)
  define Q where "Q k \<longleftrightarrow> heads g \<le> k \<and> net k (url s) = Resp 200" for k
  from poll_loop_Some_success[OF l] have ex: "\<exists>k. Q k" by (auto simp: Q_def)
  define K where "K = (LEAST k. Q k)"
  have QK: "Q K" unfolding K_def using ex by (auto intro: LeastI)
  have least: "\<And>k. k < K \<Longrightarrow> \<not> Q k" unfolding K_def by (rule not_less_Least)
  define N where "N = K - heads g"
  have K: "heads g + N = K" using QK by (simp add: N_def Q_def)
  have a: "\<forall>j<N. net (heads g + j) (url s) \<noteq> Resp 200"
  proof (intro allI impI)
    fix j assume "j < N"
    then have "heads g + j < K" using K by simp
    from least[OF this] show "net (heads g + j) (url s) \<noteq> Resp 200" by (simp add: Q_def)
  qed
  have b: "net (heads g + N) (url s) = Resp 200" using QK K by (simp add: Q_def)
  from poll_loop_after[of N net g s] a b l
  have r: "run net (replicate (2 * N + 1) Poll) (AtTest, s, g) = (AtLock, s, g1)" by auto
  have "run net (replicate (2 * N + 1) Poll @ [Poll, Poll]) (AtTest, s, g) = (Exited, s', g')"
    unfolding run_append r by (simp add: s' g')
  moreover have "replicate (2 * N + 1) Poll @ [Poll, Poll] = replicate (2 * N + 1 + 2) Poll"
    unfolding replicate_add by (simp add: numeral_2_eq_2)
  ultimately have "run net (replicate (2 * N + 1 + 2) Poll) (AtTest, s, g) = (Exited, s', g')"
    by (simp only:)
  then show ?thesis by blast
qed

text \<open>The counters of probes and of errors, in every state a new server can reach.\<close>

lemma counters_invariant:
  "heads g \<le> heads (glob (run net acts (NewServer v u p g))) \<and>
   url (srv (run net acts (NewServer v u p g))) = u \<and>
   pollCount (glob (run net acts (NewServer v u p g))) =
     pollCount g + of_nat (heads (glob (run net acts (NewServer v u p g))) - heads g) \<and>
   pollErrorCount (glob (run net acts (NewServer v u p g))) =
     pollErrorCount g +
       of_nat (length (filter (\<lambda>k. is_Err (net k u))
                 [heads g..<heads (glob (run net acts (NewServer v u p g)))]))"
  (is "?P (run net acts (NewServer v u p g))")
proof (rule run_invariant[where P = ?P])
  show "?P (NewServer v u p g)"
    by (simp add: NewServer_def)
next
  fix a c
  assume inv: "?P c"
  let ?c' = "step net a c"
  note hs = step_heads[of net a c] and cs = step_counters[of net a c]
  from inv have h: "heads g \<le> heads (glob c)" and u: "url (srv c) = u" by blast+
  show "?P ?c'"
  proof (cases "a = Poll \<and> cpc c = AtTest")
    case True
    then have h': "heads (glob ?c') = Suc (heads (glob c))" using hs by simp
    have up: "[heads g..<Suc (heads (glob c))] = [heads g..<heads (glob c)] @ [heads (glob c)]"
      using h by simp
    have sub: "Suc (heads (glob c)) - heads g = Suc (heads (glob c) - heads g)"
      using h by simp
    have "url (srv ?c') = u" using u by (simp add: step_srv)
    moreover have "heads g \<le> heads (glob ?c')" using h h' by simp
    moreover have "pollCount (glob ?c') = pollCount g + of_nat (heads (glob ?c') - heads g)"
      using inv True cs(1) unfolding h' sub by simp
    moreover have "pollErrorCount (glob ?c') = pollErrorCount g +
       of_nat (length (filter (\<lambda>k. is_Err (net k u)) [heads g..<heads (glob ?c')]))"
      using inv True cs(2) u unfolding h' up by simp
    ultimately show ?thesis by blast
  next
    case False
    then have h': "heads (glob ?c') = heads (glob c)" using hs by auto
    have "url (srv ?c') = u" using u by (simp add: step_srv)
    moreover have "pollCount (glob ?c') = pollCount (glob c)"
      using False cs(1) by auto
    moreover have "pollErrorCount (glob ?c') = pollErrorCount (glob c)"
      using False cs(2) by auto
    ultimately show ?thesis using inv unfolding h' by simp
  qed
qed

section \<open>Claims about the server under any schedule\<close>

text \<open>
  Claim C4. A new server has \<open>yes\<close> false. In every state it can reach, under any
  schedule: while no request of the poller has been answered with 200, the poller is
  still in its loop; and while the poller has not executed the locked assignment (it is in
  its loop, or has left it and stands before the lock), \<open>yes\<close> is false and every
  request served so far has read false.
\<close>

theorem reads_false_before_success:
  assumes "c = run net acts (NewServer v u p g)"
  shows "\<not> yes (srv (NewServer v u p g)) \<and>
         ((\<forall>k. heads g \<le> k \<and> k < heads (glob c) \<longrightarrow> net k u \<noteq> Resp 200) \<longrightarrow>
            cpc c = AtTest \<or> cpc c = AtSleep) \<and>
         (cpc c = AtTest \<or> cpc c = AtSleep \<or> cpc c = AtLock \<longrightarrow>
            \<not> yes (srv c) \<and> (\<forall>d. TmplExecute d \<in> set (added g (glob c)) \<longrightarrow> \<not> Yes d))"
proof -
  from poller_invariant[of net acts v u p g] obtain ext where
    ns: "(\<forall>k. heads g \<le> k \<and> k < heads (glob c) \<longrightarrow> net k u \<noteq> Resp 200)
           \<longrightarrow> cpc c = AtTest \<or> cpc c = AtSleep"
    and t: "trace (glob c) = trace g @ ext"
    and rd: "cpc c \<in> {AtTest, AtSleep, AtLock} \<longrightarrow>
               \<not> yes (srv c) \<and> (\<forall>d. TmplExecute d \<in> set ext \<longrightarrow> \<not> Yes d)"
    unfolding assms by blast
  have "added g (glob c) = ext" using t by (rule added_append)
  with rd have "cpc c = AtTest \<or> cpc c = AtSleep \<or> cpc c = AtLock \<longrightarrow>
            \<not> yes (srv c) \<and> (\<forall>d. TmplExecute d \<in> set (added g (glob c)) \<longrightarrow> \<not> Yes d)"
    by auto
  moreover have "\<not> yes (srv (NewServer v u p g))" by (simp add: NewServer_def)
  ultimately show ?thesis using ns by blast
qed

theorem reads_false_before_success_witness:
  "cpc (run (net_after 2 (Err ''no such host''))
          [Serve None, Poll, Poll, Serve None, Poll]
          (NewServer ''1.9.0'' ''u'' 5 process_start)) = AtSleep \<and>
   \<not> yes (srv (run (net_after 2 (Err ''no such host''))
          [Serve None, Poll, Poll, Serve None, Poll]
          (NewServer ''1.9.0'' ''u'' 5 process_start))) \<and>
   TmplExecute \<lparr>URL = ''u'', Version = ''1.9.0'', Yes = True\<rparr>
     \<notin> set (added process_start (glob (run (net_after 2 (Err ''no such host''))
          [Serve None, Poll, Poll, Serve None, Poll]
          (NewServer ''1.9.0'' ''u'' 5 process_start))))"
proof -
  have pc: "cpc (run (net_after 2 (Err ''no such host''))
          [Serve None, Poll, Poll, Serve None, Poll]
          (NewServer ''1.9.0'' ''u'' 5 process_start)) = AtSleep"
    by (simp add: NewServer_def isTagged_def http_Head_def net_after_def process_start_def
          ServeHTTP_def log_Print_def pollSleep_def)
  from reads_false_before_success
      [where net = "net_after 2 (Err ''no such host'')"
         and acts = "[Serve None, Poll, Poll, Serve None, Poll]"
         and v = "''1.9.0''" and u = "''u''" and p = 5 and g = process_start, OF refl] pc
  show ?thesis by auto
qed

lemma filter_all_upt: "\<forall>k\<ge>a. P k \<Longrightarrow> length (filter P [a..<b]) = b - a"
proof -
  assume "\<forall>k\<ge>a. P k"
  then have "filter P [a..<b] = [a..<b]" by (auto simp: filter_id_conv)
  then show ?thesis by simp
qed

lemma failing_iterations:
  assumes "\<forall>k\<ge>heads g. net k u \<noteq> Resp 200"
  shows "cpc (run net (replicate (2 * n) Poll) (NewServer v u p g)) = AtTest \<and>
         heads (glob (run net (replicate (2 * n) Poll) (NewServer v u p g))) = heads g + n"
proof (induction n)
  case 0
  show ?case by (simp add: NewServer_def)
next
  case (Suc n)
  let ?c = "run net (replicate (2 * n) Poll) (NewServer v u p g)"
  have "replicate (2 * n + 2) Poll = replicate (2 * n) Poll @ replicate 2 Poll"
    by (rule replicate_add)
  then have r: "replicate (2 * Suc n) Poll = replicate (2 * n) Poll @ [Poll, Poll]"
    by (simp add: numeral_2_eq_2)
  have u: "url (srv ?c) = u"
    using poller_invariant[of net "replicate (2 * n) Poll" v u p g] by blast
  from Suc.IH have pc: "cpc ?c = AtTest" and h: "heads (glob ?c) = heads g + n" by blast+
  from assms have f: "net (heads g + n) u \<noteq> Resp 200" by simp
  let ?c1 = "step net Poll ?c"
  have pc1: "cpc ?c1 = AtSleep" using step_cpc[of net Poll ?c] pc h u f by simp
  have h1: "heads (glob ?c1) = Suc (heads g + n)" using step_heads[of net Poll ?c] pc h by simp
  have pc2: "cpc (step net Poll ?c1) = AtTest" using step_cpc[of net Poll ?c1] pc1 by simp
  have h2: "heads (glob (step net Poll ?c1)) = Suc (heads g + n)"
    using step_heads[of net Poll ?c1] pc1 h1 by simp
  show ?case
    unfolding r run_append using pc2 h2 by simp
qed

text \<open>
  Claim C5 says that when every probe fails, the error counter grows by one with every
  attempt. A probe also fails when its request is answered with a status other than 200,
  and then the error counter stays: after two such attempts the server is still polling,
  \<open>pollCount\<close> is 2 and \<open>pollErrorCount\<close> is 0.
\<close>

theorem all_probes_fail_counterexample:
  "cpc (run (net_always (Resp 404)) [Poll, Poll, Poll, Poll]
          (NewServer ''1.9.0'' ''u'' 5 process_start)) = AtTest \<and>
   \<not> yes (srv (run (net_always (Resp 404)) [Poll, Poll, Poll, Poll]
          (NewServer ''1.9.0'' ''u'' 5 process_start))) \<and>
   heads (glob (run (net_always (Resp 404)) [Poll, Poll, Poll, Poll]
          (NewServer ''1.9.0'' ''u'' 5 process_start))) = 2 \<and>
   pollCount (glob (run (net_always (Resp 404)) [Poll, Poll, Poll, Poll]
          (NewServer ''1.9.0'' ''u'' 5 process_start))) = 2 \<and>
   pollErrorCount (glob (run (net_always (Resp 404)) [Poll, Poll, Poll, Poll]
          (NewServer ''1.9.0'' ''u'' 5 process_start))) = 0"
  by (simp add: NewServer_def isTagged_def http_Head_def net_always_def process_start_def
        pollSleep_def)

text \<open>
  Claim C5, amended. Let every probe from now on fail (no request is answered with 200).
  Then \<open>poll\<close> never returns; in every state the server can reach the poller is in its
  loop and \<open>yes\<close> is false; every request served has read the server's URL and version
  and \<open>yes\<close> false, nothing of the failures; after \<open>n\<close> rounds of the loop the poller
  has made \<open>n\<close> attempts and is about to make the next one. \<open>pollCount\<close> has grown by the
  number of attempts, \<open>pollErrorCount\<close> by the number of attempts that failed with a
  transport error: by the number of attempts when all of them fail so.
\<close>

theorem all_probes_fail:
  assumes "\<forall>k\<ge>heads g. net k u \<noteq> Resp 200"
    and "c = run net acts (NewServer v u p g)"
  shows "poll net (srv (NewServer v u p g)) g = None \<and>
         (cpc c = AtTest \<or> cpc c = AtSleep) \<and>
         \<not> yes (srv c) \<and>
         (\<forall>d. TmplExecute d \<in> set (added g (glob c)) \<longrightarrow>
              d = \<lparr>URL = u, Version = v, Yes = False\<rparr>) \<and>
         pollCount (glob c) = pollCount g + of_nat (heads (glob c) - heads g) \<and>
         pollErrorCount (glob c) =
           pollErrorCount g +
             of_nat (length (filter (\<lambda>k. is_Err (net k u)) [heads g..<heads (glob c)])) \<and>
         ((\<forall>k\<ge>heads g. is_Err (net k u)) \<longrightarrow>
            pollErrorCount (glob c) = pollErrorCount g + of_nat (heads (glob c) - heads g)) \<and>
         (\<forall>n. cpc (run net (replicate (2 * n) Poll) (NewServer v u p g)) = AtTest \<and>
              heads (glob (run net (replicate (2 * n) Poll) (NewServer v u p g))) = heads g + n)"
proof -
  have 1: "poll net (srv (NewServer v u p g)) g = None"
    using assms(1) by (intro poll_never_returns) (simp add: NewServer_def)
  from poller_invariant[of net acts v u p g] obtain ext where
    ns: "(\<forall>k. heads g \<le> k \<and> k < heads (glob c) \<longrightarrow> net k u \<noteq> Resp 200)
           \<longrightarrow> cpc c = AtTest \<or> cpc c = AtSleep"
    and t: "trace (glob c) = trace g @ ext"
    and uv: "\<forall>d. TmplExecute d \<in> set ext \<longrightarrow> URL d = u \<and> Version d = v"
    and rd: "cpc c \<in> {AtTest, AtSleep, AtLock} \<longrightarrow>
               \<not> yes (srv c) \<and> (\<forall>d. TmplExecute d \<in> set ext \<longrightarrow> \<not> Yes d)"
    unfolding assms(2) by blast
  have ad: "added g (glob c) = ext" using t by (rule added_append)
  from ns assms(1) have 2: "cpc c = AtTest \<or> cpc c = AtSleep" by blast
  with rd have 3: "\<not> yes (srv c)" and no: "\<forall>d. TmplExecute d \<in> set ext \<longrightarrow> \<not> Yes d"
    by auto
  have 4: "\<forall>d. TmplExecute d \<in> set (added g (glob c)) \<longrightarrow>
              d = \<lparr>URL = u, Version = v, Yes = False\<rparr>"
    unfolding ad using uv no by auto
  from counters_invariant[of g net acts v u p] have
    5: "pollCount (glob c) = pollCount g + of_nat (heads (glob c) - heads g)"
    and 6: "pollErrorCount (glob c) =
           pollErrorCount g +
             of_nat (length (filter (\<lambda>k. is_Err (net k u)) [heads g..<heads (glob c)]))"
    unfolding assms(2) by blast+
  have 7: "(\<forall>k\<ge>heads g. is_Err (net k u)) \<longrightarrow>
            pollErrorCount (glob c) = pollErrorCount g + of_nat (heads (glob c) - heads g)"
    using 6 by (simp add: filter_all_upt)
  have 8: "\<forall>n. cpc (run net (replicate (2 * n) Poll) (NewServer v u p g)) = AtTest \<and>
              heads (glob (run net (replicate (2 * n) Poll) (NewServer v u p g))) = heads g + n"
    using failing_iterations[where net = net and g = g and u = u and v = v and p = p] assms(1)
    by blast
  from 1 2 3 4 5 6 7 8 show ?thesis by blast
qed

theorem all_probes_fail_witness:
  "poll (net_always (Err ''no such host'')) (srv (NewServer ''1.9.0'' ''u'' 5 process_start))
     process_start = None \<and>
   \<not> yes (srv (run (net_always (Err ''no such host''))
          [Poll, Poll, Serve None, Poll, Poll, Poll]
          (NewServer ''1.9.0'' ''u'' 5 process_start))) \<and>
   heads (glob (run (net_always (Err ''no such host''))
          [Poll, Poll, Serve None, Poll, Poll, Poll]
          (NewServer ''1.9.0'' ''u'' 5 process_start))) = 3 \<and>
   pollErrorCount (glob (run (net_always (Err ''no such host''))
          [Poll, Poll, Serve None, Poll, Poll, Poll]
          (NewServer ''1.9.0'' ''u'' 5 process_start))) = 3"
proof -
  have h: "heads (glob (run (net_always (Err ''no such host''))
          [Poll, Poll, Serve None, Poll, Poll, Poll]
          (NewServer ''1.9.0'' ''u'' 5 process_start))) = 3"
    by (simp add: NewServer_def isTagged_def http_Head_def net_always_def process_start_def
          ServeHTTP_def log_Print_def pollSleep_def)
  from all_probes_fail
      [where net = "net_always (Err ''no such host'')"
         and acts = "[Poll, Poll, Serve None, Poll, Poll, Poll]"
         and v = "''1.9.0''" and u = "''u''" and p = 5 and g = process_start, OF _ refl] h
  show ?thesis by (simp add: net_always_def process_start_def)
qed


text \<open>
  Claim C8 says that a period of zero or less is clamped to a least positive interval. It
  is not: with period 0 the sleep hook is called with 0, with period -1 with -1.
\<close>

theorem period_not_clamped_counterexample:
  "added process_start
      (glob (run (net_after 1 (Resp 404)) [Poll, Poll, Poll]
                (NewServer ''1.9.0'' ''u'' 0 process_start))) =
     [HttpHead ''u'', PollSleep 0, HttpHead ''u''] \<and>
   added process_start
      (glob (run (net_after 1 (Resp 404)) [Poll, Poll, Poll]
                (NewServer ''1.9.0'' ''u'' (- 1) process_start))) =
     [HttpHead ''u'', PollSleep (- 1), HttpHead ''u''] \<and>
   sint (0 :: int64) = 0 \<and> sint (- 1 :: int64) = - 1"
  by (simp add: NewServer_def isTagged_def http_Head_def net_after_def process_start_def
        pollSleep_def added_def)

text \<open>
  Claim C8, amended. The server keeps the period it was built with, of any sign, and
  every call of \<open>pollSleep\<close> between two probes is made with exactly that period: there is
  no clamping.
\<close>

theorem sleeps_for_the_period_as_given:
  assumes "c = run net acts (NewServer v u p g)"
  shows "period (srv c) = p \<and>
         (\<forall>d. PollSleep d \<in> set (added g (glob c)) \<longrightarrow> d = p) \<and>
         (cpc c = AtSleep \<longrightarrow> step net Poll c = (AtTest, srv c, pollSleep p (glob c)))"
proof -
  from poller_invariant[of net acts v u p g] obtain ext where
    pe: "period (srv c) = p"
    and t: "trace (glob c) = trace g @ ext"
    and sl: "\<forall>d. PollSleep d \<in> set ext \<longrightarrow> d = p"
    unfolding assms by blast
  have ad: "added g (glob c) = ext" using t by (rule added_append)
  have "cpc c = AtSleep \<longrightarrow> step net Poll c = (AtTest, srv c, pollSleep p (glob c))"
    using pe by (cases c) auto
  with pe sl ad show ?thesis by simp
qed

theorem sleeps_for_the_period_as_given_witness:
  "PollSleep 1 \<notin> set (added process_start
      (glob (run (net_after 1 (Resp 404)) [Poll, Poll, Poll]
                (NewServer ''1.9.0'' ''u'' 0 process_start)))) \<and>
   period (srv (run (net_after 1 (Resp 404)) [Poll, Poll, Poll]
                (NewServer ''1.9.0'' ''u'' 0 process_start))) = 0"
  using sleeps_for_the_period_as_given
      [where net = "net_after 1 (Resp 404)" and acts = "[Poll, Poll, Poll]"
         and v = "''1.9.0''" and u = "''u''" and p = 0 and g = process_start, OF refl]
  by auto

section \<open>The counters\<close>

lemma sint_succ: "sint (x :: int64) < 2 ^ 63 - 1 \<Longrightarrow> sint (x + 1) = sint x + 1"
proof -
  assume a: "sint x < 2 ^ 63 - 1"
  have lo: "- (2 ^ 63) \<le> sint x" using sint_ge[of x] by simp
  have "sint (x + 1) = signed_take_bit 63 (sint x + 1)"
    by (simp add: sint_word_ariths)
  also have "\<dots> = sint x + 1"
    using a lo by (intro signed_take_bit_int_eq_self) auto
  finally show ?thesis .
qed

lemma sint_incr_le:
  "(y :: int64) = x + (if b then 1 else 0) \<Longrightarrow> sint x < 2 ^ 63 - 1 \<Longrightarrow> sint x \<le> sint y"
  by (cases b) (simp_all add: sint_succ)

lemma hitCount_serves:
  "hitCount (glob (run net (replicate n (Serve e)) c)) = hitCount (glob c) + of_nat n"
proof (induction n arbitrary: c)
  case 0
  show ?case by simp
next
  case (Suc n)
  obtain p s g where c: "c = (p, s, g)" by (cases c)
  show ?case
    by (simp add: Suc.IH) (simp add: c ServeHTTP_fields)
qed

text \<open>
  Claim C7 says that every failed probe adds one to the error counter and that no operation
  ever decreases a counter. A probe answered with a status other than 200 fails and leaves
  the error counter as it was. And the counters are \<open>int64\<close>: the request after the
  \<open>2^63 - 1\<close>-th takes \<open>hitCount\<close> from the largest \<open>int64\<close> to the smallest.
\<close>

theorem counters_counterexample:
  "\<not> fst (isTagged (net_always (Resp 404)) ''u'' process_start) \<and>
   pollErrorCount (snd (isTagged (net_always (Resp 404)) ''u'' process_start)) =
     pollErrorCount process_start \<and>
   sint (hitCount (glob (run (net_always (Resp 404)) (replicate (2 ^ 63 - 1) (Serve None))
                          (NewServer ''1.9.0'' ''u'' 5 process_start)))) = 2 ^ 63 - 1 \<and>
   sint (hitCount (glob (run (net_always (Resp 404)) (replicate (2 ^ 63) (Serve None))
                          (NewServer ''1.9.0'' ''u'' 5 process_start)))) = - (2 ^ 63)"
proof -
  have "\<not> fst (isTagged (net_always (Resp 404)) ''u'' process_start) \<and>
   pollErrorCount (snd (isTagged (net_always (Resp 404)) ''u'' process_start)) =
     pollErrorCount process_start"
    by (simp add: isTagged_def http_Head_def net_always_def process_start_def)
  moreover have "hitCount (glob (NewServer ''1.9.0'' ''u'' 5 process_start)) = 0"
    by (simp add: NewServer_def process_start_def)
  ultimately show ?thesis
    by (simp add: hitCount_serves)
qed

text \<open>
  Claim C7, amended. In \<open>int64\<close> arithmetic: every call of \<open>isTagged\<close> adds one to
  \<open>pollCount\<close>, and one to \<open>pollErrorCount\<close> when its request fails with a transport
  error, nothing otherwise; every \<open>ServeHTTP\<close> adds one to \<open>hitCount\<close>. A step of the
  system, whichever it is, changes no counter in any other way: none is reset, and a
  counter below the largest \<open>int64\<close> does not decrease.
\<close>

theorem counters_change_by_step:
  "pollCount (snd (isTagged net u g)) = pollCount g + 1 \<and>
   pollErrorCount (snd (isTagged net u g)) =
     pollErrorCount g + (if is_Err (net (heads g) u) then 1 else 0) \<and>
   hitCount (snd (isTagged net u g)) = hitCount g \<and>
   hitCount (ServeHTTP e s g) = hitCount g + 1 \<and>
   pollCount (ServeHTTP e s g) = pollCount g \<and>
   pollErrorCount (ServeHTTP e s g) = pollErrorCount g \<and>
   pollCount (glob (step net a c)) =
     pollCount (glob c) + (if a = Poll \<and> cpc c = AtTest then 1 else 0) \<and>
   pollErrorCount (glob (step net a c)) =
     pollErrorCount (glob c) +
       (if a = Poll \<and> cpc c = AtTest \<and> is_Err (net (heads (glob c)) (url (srv c)))
        then 1 else 0) \<and>
   hitCount (glob (step net a c)) = hitCount (glob c) + (if a = Poll then 0 else 1) \<and>
   (sint (pollCount (glob c)) < 2 ^ 63 - 1 \<longrightarrow>
      sint (pollCount (glob c)) \<le> sint (pollCount (glob (step net a c)))) \<and>
   (sint (pollErrorCount (glob c)) < 2 ^ 63 - 1 \<longrightarrow>
      sint (pollErrorCount (glob c)) \<le> sint (pollErrorCount (glob (step net a c)))) \<and>
   (sint (hitCount (glob c)) < 2 ^ 63 - 1 \<longrightarrow>
      sint (hitCount (glob c)) \<le> sint (hitCount (glob (step net a c))))"
proof -
  note cs = step_counters[of net a c]
  have 1: "sint (pollCount (glob c)) < 2 ^ 63 - 1 \<longrightarrow>
      sint (pollCount (glob c)) \<le> sint (pollCount (glob (step net a c)))"
    using sint_incr_le[OF cs(1)] by blast
  have 2: "sint (pollErrorCount (glob c)) < 2 ^ 63 - 1 \<longrightarrow>
      sint (pollErrorCount (glob c)) \<le> sint (pollErrorCount (glob (step net a c)))"
    using sint_incr_le[OF cs(2)] by blast
  have "hitCount (glob (step net a c)) = hitCount (glob c) + (if a \<noteq> Poll then 1 else 0)"
    using cs(3) by simp
  from sint_incr_le[OF this] have 3: "sint (hitCount (glob c)) < 2 ^ 63 - 1 \<longrightarrow>
      sint (hitCount (glob c)) \<le> sint (hitCount (glob (step net a c)))"
    by blast
  from 1 2 3 cs show ?thesis
    by (simp only: isTagged_counters ServeHTTP_fields simp_thms)
qed

theorem counters_change_by_step_witness:
  "pollCount (glob (step (net_always (Resp 404)) Poll (NewServer ''1.9.0'' ''u'' 5 process_start))) = 1 \<and>
   pollErrorCount (glob (step (net_always (Resp 404)) Poll (NewServer ''1.9.0'' ''u'' 5 process_start))) = 0 \<and>
   hitCount (glob (step (net_always (Resp 404)) (Serve None) (NewServer ''1.9.0'' ''u'' 5 process_start))) = 1 \<and>
   sint (hitCount (glob (NewServer ''1.9.0'' ''u'' 5 process_start)))
     \<le> sint (hitCount (glob (step (net_always (Resp 404)) (Serve None)
                                 (NewServer ''1.9.0'' ''u'' 5 process_start))))"
  using counters_change_by_step
      [where net = "net_always (Resp 404)" and a = Poll
         and c = "NewServer ''1.9.0'' ''u'' 5 process_start"]
    counters_change_by_step
      [where net = "net_always (Resp 404)" and a = "Serve None"
         and c = "NewServer ''1.9.0'' ''u'' 5 process_start"]
  by (simp add: NewServer_def net_always_def process_start_def)

section \<open>The command\<close>

lemma addrs_loop_last:
  "addrs_loop ipcheck addrs = last (ipcheck # List.map_filter addr_ip addrs)"
  by (induction ipcheck addrs rule: addrs_loop.induct) (simp_all add: List.map_filter_simps)

lemma last_Cons_append: "last (x # xs @ ys) = last (last (x # xs) # ys)"
  by (cases ys) auto

lemma found_ips_Cons:
  "found_ips ((addrs, err) # ifaces) = List.map_filter addr_ip addrs @ found_ips ifaces"
  by (simp add: found_ips_def)

lemma ifaces_loop_last:
  "fst (ifaces_loop ipcheck ifaces g) = last (ipcheck # found_ips ifaces)"
proof (induction ipcheck ifaces g rule: ifaces_loop.induct)
  case (1 ipcheck g)
  show ?case by (simp add: found_ips_def)
next
  case (2 ipcheck addrs err ifaces g)
  show ?case
    by (simp only: ifaces_loop.simps 2 found_ips_Cons)
       (simp only: addrs_loop_last last_Cons_append)
qed

text \<open>
  Claim C9. The value of the flag \<open>-iphost\<close> (and of \<open>-version\<close>) has no effect on what
  \<open>main\<close> builds. The version string of the server is \<open>IP.String()\<close> of the last address
  the walk over the interfaces found (of the \<open>nil\<close> address when it found none), and the
  URL is \<open>baseChangeURL\<close>, then \<open>go\<close>, then that string.
\<close>

theorem main_ignores_iphost_flag:
  "main IP_String (fl\<lparr>iphost := x, version_flag := y\<rparr>) (ifaces, err) g =
     main IP_String fl (ifaces, err) g \<and>
   fst (main IP_String fl (ifaces, err) g) = httpAddr fl \<and>
   cpc (snd (main IP_String fl (ifaces, err) g)) = AtTest \<and>
   srv (snd (main IP_String fl (ifaces, err) g)) =
     \<lparr>version = IP_String (last ([] # found_ips ifaces)),
      url = baseChangeURL @ ''go'' @ IP_String (last ([] # found_ips ifaces)),
      period = pollPeriod fl, yes = False\<rparr>"
proof -
  obtain ip g2 where l: "ifaces_loop [] ifaces (case err of None \<Rightarrow> g | Some m \<Rightarrow> log_Print m g) = (ip, g2)"
    by (cases "ifaces_loop [] ifaces (case err of None \<Rightarrow> g | Some m \<Rightarrow> log_Print m g)")
  from ifaces_loop_last[of "[]" ifaces "case err of None \<Rightarrow> g | Some m \<Rightarrow> log_Print m g"]
  have ip: "ip = last ([] # found_ips ifaces)" by (simp add: l)
  show ?thesis
    by (simp add: main_def l NewServer_def ip Let_def)
qed

theorem main_ignores_iphost_flag_witness:
  "\<forall>f. srv (snd (main f flags_sample interfaces_sample process_start)) =
     \<lparr>version = f [192, 168, 1, 5],
      url = ''https://go.googlesource.com/go/+/go'' @ f [192, 168, 1, 5],
      period = 5000000000, yes = False\<rparr>"
  using main_ignores_iphost_flag
     [where fl = flags_sample and ifaces = "fst interfaces_sample"
        and err = "snd interfaces_sample" and g = process_start]
  by (simp add: interfaces_sample_def flags_sample_def found_ips_def baseChangeURL_def
        List.map_filter_simps)

end
